theory Spec2Isabelle
  imports Main "HOL-Library.Char_ord" "HOL-Library.List_Lexorder" "HOL-Library.Multiset"
begin

section \<open>Strings and paths\<close>

text \<open>
  The program manipulates \<^verbatim>\<open>pathlib.Path\<close> values and Python strings. Strings are
  \<^typ>\<open>string\<close>. The methods of \<^verbatim>\<open>str\<close> and of \<^verbatim>\<open>PurePosixPath\<close> that the
  source calls are written out below as CPython 3.10, 3.11 and 3.12 define them (the
  versions that the package declares); Windows drives are not modelled.
\<close>

text \<open>\<^verbatim>\<open>str.rfind(c)\<close>: the highest index of \<open>c\<close>, or \<open>-1\<close>.\<close>

fun rfind :: "char \<Rightarrow> string \<Rightarrow> int" where
  "rfind c [] = -1"
| "rfind c (x # xs) =
     (let r = rfind c xs in if 0 \<le> r then r + 1 else if x = c then 0 else -1)"

text \<open>\<^verbatim>\<open>str.split(c)\<close>: the fields between the occurrences of \<open>c\<close> (at least one field).\<close>

fun split_on :: "char \<Rightarrow> string \<Rightarrow> string list" where
  "split_on c [] = [[]]"
| "split_on c (x # xs) =
     (if x = c then [] # split_on c xs
      else (case split_on c xs of [] \<Rightarrow> [[x]] | f # fs \<Rightarrow> (x # f) # fs))"

text \<open>\<^verbatim>\<open>sep.join(fields)\<close>.\<close>

fun join_with :: "string \<Rightarrow> string list \<Rightarrow> string" where
  "join_with sep [] = []"
| "join_with sep [f] = f"
| "join_with sep (f # g # fs) = f @ sep @ join_with sep (g # fs)"

text \<open>
  \<^verbatim>\<open>str.lower()\<close> and \<^verbatim>\<open>str.upper()\<close> on the ASCII letters. The suffixes that the
  program recognises are ASCII, and no character outside ASCII lower-cases to one of
  their letters, so the membership tests of the source are decided by the ASCII part.
\<close>

definition lower_char :: "char \<Rightarrow> char" where
  "lower_char c =
     (case map_of (zip ''ABCDEFGHIJKLMNOPQRSTUVWXYZ'' ''abcdefghijklmnopqrstuvwxyz'') c of
        Some l \<Rightarrow> l
      | None \<Rightarrow> c)"

definition upper_char :: "char \<Rightarrow> char" where
  "upper_char c =
     (case map_of (zip ''abcdefghijklmnopqrstuvwxyz'' ''ABCDEFGHIJKLMNOPQRSTUVWXYZ'') c of
        Some u \<Rightarrow> u
      | None \<Rightarrow> c)"

definition lower :: "string \<Rightarrow> string" where
  "lower s = map lower_char s"

definition upper :: "string \<Rightarrow> string" where
  "upper s = map upper_char s"

text \<open>
  A parsed path: the root (\<open>''''\<close> for a relative path, \<open>''/''\<close> or \<open>''//''\<close> otherwise)
  and the components after it.
\<close>

record path =
  root :: string
  tail :: "string list"

text \<open>What every path built by \<^verbatim>\<open>Path(...)\<close> satisfies.\<close>

definition wf_path :: "path \<Rightarrow> bool" where
  "wf_path p =
     ((root p = [] \<or> root p = ''/'' \<or> root p = ''//'') \<and>
      list_all (\<lambda>s. s \<noteq> [] \<and> s \<noteq> ''.'' \<and> CHR ''/'' \<notin> set s) (tail p))"

text \<open>\<^verbatim>\<open>posixpath.splitroot\<close> followed by the split into components of \<^verbatim>\<open>Path(s)\<close>.\<close>

definition parse_path :: "string \<Rightarrow> path" where
  "parse_path s =
     (let keep = filter (\<lambda>x. x \<noteq> [] \<and> x \<noteq> ''.'') in
      if take 1 s \<noteq> ''/'' then \<lparr>root = [], tail = keep (split_on CHR ''/'' s)\<rparr>
      else if take 1 (drop 1 s) \<noteq> ''/'' \<or> take 1 (drop 2 s) = ''/''
        then \<lparr>root = ''/'', tail = keep (split_on CHR ''/'' (drop 1 s))\<rparr>
      else \<lparr>root = ''//'', tail = keep (split_on CHR ''/'' (drop 2 s))\<rparr>)"

text \<open>\<^verbatim>\<open>d / key\<close> for a string \<open>key\<close>: an absolute \<open>key\<close> replaces \<open>d\<close>.\<close>

definition joinpath :: "path \<Rightarrow> string \<Rightarrow> path" where
  "joinpath d key =
     (let k = parse_path key in
      if root k \<noteq> [] then k else \<lparr>root = root d, tail = tail d @ tail k\<rparr>)"

text \<open>\<^verbatim>\<open>str(p)\<close>.\<close>

definition path_str :: "path \<Rightarrow> string" where
  "path_str p =
     (let s = root p @ join_with ''/'' (tail p) in if s = [] then ''.'' else s)"

text \<open>\<^verbatim>\<open>p.name\<close>, \<^verbatim>\<open>p.suffix\<close>, \<^verbatim>\<open>p.stem\<close> and \<^verbatim>\<open>p.parent\<close>.\<close>

definition name :: "path \<Rightarrow> string" where
  "name p = (if tail p = [] then [] else last (tail p))"

definition suffix :: "path \<Rightarrow> string" where
  "suffix p =
     (let n = name p; i = rfind CHR ''.'' n in
      if 0 < i \<and> i < int (length n) - 1 then drop (nat i) n else [])"

definition stem :: "path \<Rightarrow> string" where
  "stem p =
     (let n = name p; i = rfind CHR ''.'' n in
      if 0 < i \<and> i < int (length n) - 1 then take (nat i) n else n)"

definition parent :: "path \<Rightarrow> path" where
  "parent p = (if tail p = [] then p else p\<lparr>tail := butlast (tail p)\<rparr>)"

text \<open>
  The comparison of two paths depends on the interpreter. CPython 3.10 and 3.11 compare
  \<^verbatim>\<open>_cparts\<close>: the root, when there is one, followed by the components. CPython 3.12
  compares \<^verbatim>\<open>_parts_normcase\<close>: the fields of \<^verbatim>\<open>str(p).split('/')\<close>. Lists of strings
  compare lexicographically.
\<close>

datatype python = Py310 | Py311 | Py312

definition cparts :: "path \<Rightarrow> string list" where
  "cparts p = (if root p = [] then tail p else root p # tail p)"

definition parts_normcase :: "path \<Rightarrow> string list" where
  "parts_normcase p = split_on CHR ''/'' (path_str p)"

definition sort_parts :: "python \<Rightarrow> path \<Rightarrow> string list" where
  "sort_parts v p = (case v of Py312 \<Rightarrow> parts_normcase p | _ \<Rightarrow> cparts p)"

section \<open>Format registry (core/formats.py)\<close>

definition SUPPORTED_INPUT_FORMATS :: "string set" where
  "SUPPORTED_INPUT_FORMATS = {''.png'', ''.jpg'', ''.jpeg''}"

definition OUTPUT_FORMAT :: string where
  "OUTPUT_FORMAT = ''.avif''"

definition is_supported_format :: "path \<Rightarrow> bool" where
  "is_supported_format file_path = (lower (suffix file_path) \<in> SUPPORTED_INPUT_FORMATS)"

definition get_output_path :: "path \<Rightarrow> path option \<Rightarrow> path" where
  "get_output_path inp output_dir =
     (let output_name = stem inp @ OUTPUT_FORMAT in
      case output_dir of
        Some d \<Rightarrow> joinpath d output_name
      | None \<Rightarrow> joinpath (parent inp) output_name)"

section \<open>The external collaborators\<close>

text \<open>
  The filesystem, the log file and the image codec (Pillow) are outside the repository.
  They are a parameter of the model: a record of operations over a state \<open>'w\<close> of the
  outside world, about which nothing is assumed. Every operation can raise: it then
  returns the exception (the text \<^verbatim>\<open>str(e)\<close> of it) as a value. An operation that can
  change the world returns the new world, also when it raises. The lines that the
  logger writes are not part of the model: the world does not hold the log.
\<close>

type_synonym exn = string

text \<open>
  What the converter reads of a decoded image: \<^verbatim>\<open>img.mode\<close>,
  \<^verbatim>\<open>img.info.get("icc_profile")\<close> and \<^verbatim>\<open>"transparency" in img.info\<close>.
\<close>

record image =
  mode :: string
  icc_profile :: "string option"
  transparency :: bool

record 'w env =
  fs_exists :: "'w \<Rightarrow> path \<Rightarrow> exn + bool"
  fs_is_file :: "'w \<Rightarrow> path \<Rightarrow> exn + bool"
  fs_is_dir :: "'w \<Rightarrow> path \<Rightarrow> exn + bool"
  fs_glob :: "'w \<Rightarrow> path \<Rightarrow> string \<Rightarrow> exn + path list"
  fs_resolve :: "'w \<Rightarrow> path \<Rightarrow> exn + path"
  fs_mkdir :: "'w \<Rightarrow> path \<Rightarrow> exn option \<times> 'w"
  log_open :: "'w \<Rightarrow> string \<Rightarrow> exn option \<times> 'w"
  img_open :: "'w \<Rightarrow> path \<Rightarrow> (exn + image) \<times> 'w"
  img_convert :: "image \<Rightarrow> string \<Rightarrow> exn + image"
  img_save :: "'w \<Rightarrow> image \<Rightarrow> path \<Rightarrow> int \<Rightarrow> string option \<Rightarrow> exn option \<times> 'w"

text \<open>
  \<open>fs_exists\<close>, \<open>fs_is_file\<close>, \<open>fs_is_dir\<close>, \<open>fs_glob\<close> and \<open>fs_resolve\<close> are the methods
  \<^verbatim>\<open>exists\<close>, \<^verbatim>\<open>is_file\<close>, \<^verbatim>\<open>is_dir\<close>, \<^verbatim>\<open>glob\<close> and \<^verbatim>\<open>resolve\<close> of \<^verbatim>\<open>Path\<close>, which
  raise \<^verbatim>\<open>OSError\<close> or \<^verbatim>\<open>RuntimeError\<close> on some paths; \<open>fs_mkdir\<close> is
  \<^verbatim>\<open>Path.mkdir(parents=True, exist_ok=True)\<close>; \<open>log_open\<close> is
  \<^verbatim>\<open>logging.FileHandler(log_file, mode="w", encoding="utf-8")\<close>, which creates or
  truncates the file; \<open>img_open\<close> is \<^verbatim>\<open>Image.open\<close>; \<open>img_convert\<close> is
  \<^verbatim>\<open>img.convert(mode)\<close>; \<open>img_save w img out q icc\<close> is
  \<^verbatim>\<open>img.save(out, "AVIF", quality=q)\<close>, with \<^verbatim>\<open>icc_profile=icc\<close> added when \<open>icc\<close> is given.
\<close>

section \<open>Single-unit converter (core/converter.py)\<close>

record conversion_result =
  input_path :: path
  output_path :: "path option"
  success :: bool
  error_message :: "string option"

record image_converter =
  quality :: int

definition DEFAULT_QUALITY :: int where
  "DEFAULT_QUALITY = 80"

definition MIN_QUALITY :: int where
  "MIN_QUALITY = 0"

definition MAX_QUALITY :: int where
  "MAX_QUALITY = 100"

definition validate_quality :: "int \<Rightarrow> int" where
  "validate_quality q =
     (if q < MIN_QUALITY then MIN_QUALITY
      else if q > MAX_QUALITY then MAX_QUALITY
      else q)"

text \<open>\<^verbatim>\<open>ImageConverter(quality)\<close>: the constructor.\<close>

definition ImageConverter :: "int \<Rightarrow> image_converter" where
  "ImageConverter q = \<lparr>quality = validate_quality q\<rparr>"

text \<open>The choice of the pixel layout in \<^verbatim>\<open>_convert_image\<close>.\<close>

definition output_img :: "'w env \<Rightarrow> image \<Rightarrow> exn + image" where
  "output_img env img =
     (if mode img = ''RGBA'' then Inr img
      else if mode img = ''P'' \<and> transparency img then img_convert env img ''RGBA''
      else if mode img = ''L'' \<or> mode img = ''LA'' then
        (if mode img = ''LA'' then img_convert env img ''RGBA''
         else img_convert env img ''RGB'')
      else (if mode img \<noteq> ''RGB'' then img_convert env img ''RGB'' else Inr img))"

text \<open>\<^verbatim>\<open>if icc_profile:\<close> holds for a profile that is present and not empty.\<close>

definition save_icc :: "string option \<Rightarrow> string option" where
  "save_icc icc = (case icc of None \<Rightarrow> None | Some b \<Rightarrow> if b = [] then None else Some b)"

definition convert_image ::
  "'w env \<Rightarrow> image_converter \<Rightarrow> 'w \<Rightarrow> path \<Rightarrow> path \<Rightarrow> exn option \<times> 'w" where
  "convert_image env self w inp out =
     (case img_open env w inp of
        (Inl e, w1) \<Rightarrow> (Some e, w1)
      | (Inr img, w1) \<Rightarrow>
          (case output_img env img of
             Inl e \<Rightarrow> (Some e, w1)
           | Inr oimg \<Rightarrow> img_save env w1 oimg out (quality self) (save_icc (icc_profile img))))"

text \<open>
  \<^verbatim>\<open>ImageConverter.convert\<close>. The result is \<open>Inl e\<close> when the call raises \<open>e\<close>, and
  \<open>Inr r\<close> when it returns \<open>r\<close>; the second component is the world afterwards. The two
  calls of \<^verbatim>\<open>exists\<close> and the call of \<^verbatim>\<open>mkdir\<close> stand before the \<^verbatim>\<open>try\<close> block: what they
  raise leaves \<open>convert\<close>. In \<^verbatim>\<open>output_path.exists() and not overwrite\<close> the call of
  \<^verbatim>\<open>exists\<close> comes first, whatever \<open>overwrite\<close> is.
\<close>

definition convert ::
  "'w env \<Rightarrow> image_converter \<Rightarrow> 'w \<Rightarrow> path \<Rightarrow> path option \<Rightarrow> bool \<Rightarrow>
     (exn + conversion_result) \<times> 'w" where
  "convert env self w inp output_dir overwrite =
     (case fs_exists env w inp of
        Inl e \<Rightarrow> (Inl e, w)
      | Inr False \<Rightarrow>
          (Inr \<lparr>input_path = inp, output_path = None, success = False,
                error_message = Some (''File not found: '' @ path_str inp)\<rparr>, w)
      | Inr True \<Rightarrow>
          if \<not> is_supported_format inp then
            (Inr \<lparr>input_path = inp, output_path = None, success = False,
                  error_message = Some (''Unsupported format: '' @ suffix inp)\<rparr>, w)
          else
            let out = get_output_path inp output_dir in
            (case fs_exists env w out of
               Inl e \<Rightarrow> (Inl e, w)
             | Inr out_exists \<Rightarrow>
                 if out_exists \<and> \<not> overwrite then
                   (Inr \<lparr>input_path = inp, output_path = Some out, success = False,
                         error_message =
                           Some (''Output exists (use --overwrite): '' @ path_str out)\<rparr>, w)
                 else
                   (case (case output_dir of None \<Rightarrow> (None, w)
                          | Some d \<Rightarrow> fs_mkdir env w d) of
                      (Some e, w1) \<Rightarrow> (Inl e, w1)
                    | (None, w1) \<Rightarrow>
                        (case convert_image env self w1 inp out of
                           (None, w2) \<Rightarrow>
                             (Inr \<lparr>input_path = inp, output_path = Some out, success = True,
                                   error_message = None\<rparr>, w2)
                         | (Some e, w2) \<Rightarrow>
                             (Inr \<lparr>input_path = inp, output_path = Some out,
                                   success = False, error_message = Some e\<rparr>, w2)))))"

section \<open>Batch orchestrator (utils/batch.py)\<close>

record batch_result =
  total :: int
  successful :: int
  failed :: int
  skipped :: int
  results :: "conversion_result list"

record batch_processor =
  converter :: image_converter
  max_workers :: int

definition DEFAULT_WORKERS :: int where
  "DEFAULT_WORKERS = 4"

text \<open>\<^verbatim>\<open>BatchProcessor(converter, max_workers)\<close>: the constructor.\<close>

definition BatchProcessor :: "image_converter \<Rightarrow> int \<Rightarrow> batch_processor" where
  "BatchProcessor conv n = \<lparr>converter = conv, max_workers = max 1 n\<rparr>"

subsection \<open>File collector\<close>

text \<open>
  The scan of one directory: for each suffix the two calls of \<^verbatim>\<open>glob\<close>, in order. \<open>exts\<close>
  is the order in which iterating the set \<^verbatim>\<open>SUPPORTED_INPUT_FORMATS\<close> yields its elements,
  which Python does not fix; the order in which \<open>fs_glob\<close> lists a directory is that of
  the filesystem. An exception of \<^verbatim>\<open>glob\<close> ends the scan.
\<close>

fun scan_exts :: "'w env \<Rightarrow> 'w \<Rightarrow> path \<Rightarrow> string \<Rightarrow> string list \<Rightarrow> exn + path list" where
  "scan_exts env w p pattern [] = Inr []"
| "scan_exts env w p pattern (ext # exts) =
     (case fs_glob env w p (pattern @ ext) of
        Inl e \<Rightarrow> Inl e
      | Inr found \<Rightarrow>
          (case fs_glob env w p (pattern @ upper ext) of
             Inl e \<Rightarrow> Inl e
           | Inr found_upper \<Rightarrow>
               (case scan_exts env w p pattern exts of
                  Inl e \<Rightarrow> Inl e
                | Inr others \<Rightarrow> Inr (found @ found_upper @ others))))"

definition scan_path :: "'w env \<Rightarrow> 'w \<Rightarrow> string list \<Rightarrow> bool \<Rightarrow> path \<Rightarrow> exn + path list" where
  "scan_path env w exts recursive p =
     (case fs_is_file env w p of
        Inl e \<Rightarrow> Inl e
      | Inr True \<Rightarrow> Inr (if lower (suffix p) \<in> SUPPORTED_INPUT_FORMATS then [p] else [])
      | Inr False \<Rightarrow>
          (case fs_is_dir env w p of
             Inl e \<Rightarrow> Inl e
           | Inr True \<Rightarrow> scan_exts env w p (if recursive then ''**/*'' else ''*'') exts
           | Inr False \<Rightarrow> Inr []))"

text \<open>The list \<^verbatim>\<open>files\<close> after the first loop of \<^verbatim>\<open>collect_files\<close>: the scan order.\<close>

fun scan :: "'w env \<Rightarrow> 'w \<Rightarrow> string list \<Rightarrow> path list \<Rightarrow> bool \<Rightarrow> exn + path list" where
  "scan env w exts [] recursive = Inr []"
| "scan env w exts (p # paths) recursive =
     (case scan_path env w exts recursive p of
        Inl e \<Rightarrow> Inl e
      | Inr found \<Rightarrow>
          (case scan env w exts paths recursive of
             Inl e \<Rightarrow> Inl e
           | Inr others \<Rightarrow> Inr (found @ others)))"

text \<open>
  The second loop: \<open>seen\<close> holds the resolved forms met so far, and an entry is kept when
  its resolved form is new. An exception of \<^verbatim>\<open>resolve\<close> ends the loop.
\<close>

fun unique_files :: "(path \<Rightarrow> exn + path) \<Rightarrow> path set \<Rightarrow> path list \<Rightarrow> exn + path list" where
  "unique_files resolve seen [] = Inr []"
| "unique_files resolve seen (f # fs) =
     (case resolve f of
        Inl e \<Rightarrow> Inl e
      | Inr resolved \<Rightarrow>
          if resolved \<notin> seen then
            (case unique_files resolve (insert resolved seen) fs of
               Inl e \<Rightarrow> Inl e
             | Inr kept \<Rightarrow> Inr (f # kept))
          else unique_files resolve seen fs)"

text \<open>
  \<^verbatim>\<open>sorted\<close> is a stable sort by the comparison of paths of the interpreter \<open>v\<close>.
\<close>

definition collect_files ::
  "python \<Rightarrow> 'w env \<Rightarrow> 'w \<Rightarrow> string list \<Rightarrow> path list \<Rightarrow> bool \<Rightarrow> exn + path list" where
  "collect_files v env w exts paths recursive =
     (case scan env w exts paths recursive of
        Inl e \<Rightarrow> Inl e
      | Inr files \<Rightarrow>
          (case unique_files (fs_resolve env w) {} files of
             Inl e \<Rightarrow> Inl e
           | Inr unique \<Rightarrow> Inr (sort_key (sort_parts v) unique)))"

text \<open>The resolved form of a path on which \<^verbatim>\<open>resolve\<close> returns.\<close>

definition canonical :: "'w env \<Rightarrow> 'w \<Rightarrow> path \<Rightarrow> path" where
  "canonical env w f = (case fs_resolve env w f of Inr c \<Rightarrow> c | Inl e \<Rightarrow> f)"

definition resolves :: "'w env \<Rightarrow> 'w \<Rightarrow> path \<Rightarrow> bool" where
  "resolves env w f = (case fs_resolve env w f of Inr c \<Rightarrow> True | Inl e \<Rightarrow> False)"

subsection \<open>Processing a batch\<close>

text \<open>
  The worker pool runs one call of \<open>convert\<close> per file and \<^verbatim>\<open>as_completed\<close> hands every
  future over once, in the order of completion. The model lets a scheduler choose that
  order: at each step the number at the head of \<open>picks\<close> selects one of the tasks that
  remain (all of them in the order of submission once \<open>picks\<close> is used up). Every
  order of completion is the choice of some \<open>picks\<close>. A task runs as one step: the
  interleaving of the filesystem operations of two tasks is not modelled. The counters
  below do not depend on it, since the loop takes every future once, whatever its task
  met.
\<close>

function schedule :: "nat list \<Rightarrow> 'a list \<Rightarrow> 'a list" where
  "schedule picks [] = []"
| "schedule [] (x # xs) = x # xs"
| "schedule (k # ks) (x # xs) =
     (let i = k mod length (x # xs) in
      (x # xs) ! i # schedule ks (take i (x # xs) @ drop (Suc i) (x # xs)))"
  by pat_completeness auto
termination
  by (relation "measure (\<lambda>(picks, xs). length xs)") auto

text \<open>
  The outcome of a future: \<^verbatim>\<open>future.result()\<close> returns the value of the task or raises
  its exception.
\<close>

fun run_tasks ::
  "'w env \<Rightarrow> image_converter \<Rightarrow> path option \<Rightarrow> bool \<Rightarrow> 'w \<Rightarrow> path list \<Rightarrow>
     (path \<times> (exn + conversion_result)) list \<times> 'w" where
  "run_tasks env conv output_dir overwrite w [] = ([], w)"
| "run_tasks env conv output_dir overwrite w (f # fs) =
     (case convert env conv w f output_dir overwrite of
        (r, w1) \<Rightarrow>
          (case run_tasks env conv output_dir overwrite w1 fs of
             (rs, w2) \<Rightarrow> ((f, r) # rs, w2)))"

text \<open>The loop over the completed futures.\<close>

fun collect_results ::
  "batch_result \<Rightarrow> (path \<times> (exn + conversion_result)) list \<Rightarrow> batch_result" where
  "collect_results result [] = result"
| "collect_results result ((file_path, Inr conv_result) # rest) =
     collect_results
       (if success conv_result
        then result\<lparr>results := results result @ [conv_result],
                    successful := successful result + 1\<rparr>
        else result\<lparr>results := results result @ [conv_result],
                    failed := failed result + 1\<rparr>)
       rest"
| "collect_results result ((file_path, Inl e) # rest) =
     collect_results
       (result\<lparr>failed := failed result + 1,
               results := results result @
                 [\<lparr>input_path = file_path, output_path = None, success = False,
                   error_message = Some e\<rparr>]\<rparr>)
       rest"

text \<open>
  \<^verbatim>\<open>BatchProcessor.process\<close>. The flag \<open>show_progress\<close> only selects log lines, and
  \<open>max_workers\<close> only bounds how many tasks run at once: neither enters the result.
\<close>

definition process ::
  "'w env \<Rightarrow> batch_processor \<Rightarrow> nat list \<Rightarrow> 'w \<Rightarrow> path list \<Rightarrow> path option \<Rightarrow> bool \<Rightarrow> bool \<Rightarrow>
     batch_result \<times> 'w" where
  "process env self picks w files output_dir overwrite show_progress =
     (let result = \<lparr>total = int (length files), successful = 0, failed = 0, skipped = 0,
                     results = []\<rparr> in
      if files = [] then (result, w)
      else
        (case run_tasks env (converter self) output_dir overwrite w (schedule picks files) of
           (completed, w1) \<Rightarrow> (collect_results result completed, w1)))"

section \<open>Command line (cli/app.py, utils/logger.py)\<close>

text \<open>The parsed arguments: what \<^verbatim>\<open>parser.parse_args\<close> returns when it accepts \<^verbatim>\<open>argv\<close>.\<close>

record args =
  arg_input :: "path list"
  arg_output :: "path option"
  arg_overwrite :: bool
  arg_quality :: int
  arg_parallel :: int
  arg_no_recursive :: bool
  arg_verbose :: bool
  arg_log_file :: "string option"
  arg_quiet :: bool

text \<open>
  \<^verbatim>\<open>setup_logger\<close>: the console handler writes to the standard output; \<^verbatim>\<open>if log_file:\<close>
  holds for a name that is given and not empty, and the file handler then opens the
  file. The exception of that call, if any, leaves \<^verbatim>\<open>setup_logger\<close>.
\<close>

definition setup_logger :: "'w env \<Rightarrow> 'w \<Rightarrow> bool \<Rightarrow> string option \<Rightarrow> exn option \<times> 'w" where
  "setup_logger env w verbose log_file =
     (case log_file of
        None \<Rightarrow> (None, w)
      | Some f \<Rightarrow> if f = [] then (None, w) else log_open env w f)"

text \<open>
  \<^verbatim>\<open>main\<close> from the parsed arguments on: \<open>Inr code\<close> when it returns the exit code, and
  \<open>Inl e\<close> when the exception \<open>e\<close> leaves it (no call in \<^verbatim>\<open>main\<close> after the parsing stands
  in a \<^verbatim>\<open>try\<close> block).
\<close>

definition main ::
  "python \<Rightarrow> 'w env \<Rightarrow> string list \<Rightarrow> nat list \<Rightarrow> 'w \<Rightarrow> args \<Rightarrow> exn + int" where
  "main v env exts picks w a =
     (case setup_logger env w (arg_verbose a) (arg_log_file a) of
        (Some e, w1) \<Rightarrow> Inl e
      | (None, w1) \<Rightarrow>
          let conv = ImageConverter (arg_quality a);
              processor = BatchProcessor conv (arg_parallel a)
          in
          (case collect_files v env w1 exts (arg_input a) (\<not> arg_no_recursive a) of
             Inl e \<Rightarrow> Inl e
           | Inr files \<Rightarrow>
               if files = [] then Inr 1
               else
                 (case process env processor picks w1 files (arg_output a) (arg_overwrite a)
                         (\<not> arg_quiet a) of
                    (result, w2) \<Rightarrow>
                      Inr (if failed result > 0 \<and> successful result = 0 then 1
                           else if failed result > 0 then 2
                           else 0))))"

section \<open>A small filesystem and codec\<close>

text \<open>
  A concrete world on which the theorems below are instantiated: the regular files, the
  directories, the symbolic links (with their targets) and the files that the codec
  cannot decode. A link whose target is itself is a loop. A name of more than 255 bytes
  is refused by the queries, as the operating system does.
\<close>

record tiny_fs =
  fs_files :: "path list"
  fs_dirs :: "path list"
  fs_links :: "(path \<times> path) list"
  fs_corrupt :: "path list"

definition too_long :: "path \<Rightarrow> bool" where
  "too_long p = list_ex (\<lambda>s. 255 < length s) (tail p)"

text \<open>The file behind a path, following a link; nothing behind a loop.\<close>

definition tiny_target :: "tiny_fs \<Rightarrow> path \<Rightarrow> path option" where
  "tiny_target w p =
     (case map_of (fs_links w) p of
        None \<Rightarrow> Some p
      | Some t \<Rightarrow> if t = p then None else Some t)"

definition tiny_exists :: "tiny_fs \<Rightarrow> path \<Rightarrow> exn + bool" where
  "tiny_exists w p =
     (if too_long p then Inl ''[Errno 36] File name too long''
      else Inr (case tiny_target w p of
                  None \<Rightarrow> False
                | Some t \<Rightarrow> t \<in> set (fs_files w) \<or> t \<in> set (fs_dirs w)))"

definition tiny_is_file :: "tiny_fs \<Rightarrow> path \<Rightarrow> exn + bool" where
  "tiny_is_file w p =
     (if too_long p then Inl ''[Errno 36] File name too long''
      else Inr (case tiny_target w p of None \<Rightarrow> False | Some t \<Rightarrow> t \<in> set (fs_files w)))"

definition tiny_is_dir :: "tiny_fs \<Rightarrow> path \<Rightarrow> exn + bool" where
  "tiny_is_dir w p =
     (if too_long p then Inl ''[Errno 36] File name too long''
      else Inr (case tiny_target w p of None \<Rightarrow> False | Some t \<Rightarrow> t \<in> set (fs_dirs w)))"

definition tiny_resolve :: "tiny_fs \<Rightarrow> path \<Rightarrow> exn + path" where
  "tiny_resolve w p =
     (case tiny_target w p of
        None \<Rightarrow> Inl (''Symlink loop from '' @ path_str p)
      | Some t \<Rightarrow> Inr t)"

definition ends_with :: "string \<Rightarrow> string \<Rightarrow> bool" where
  "ends_with s e = (length e \<le> length s \<and> drop (length s - length e) s = e)"

text \<open>The entries of a directory are its regular files and its links, loops included.\<close>

definition tiny_glob :: "tiny_fs \<Rightarrow> path \<Rightarrow> string \<Rightarrow> exn + path list" where
  "tiny_glob w d pat =
     Inr (if take 4 pat = ''**/*'' then
            filter (\<lambda>f. root f = root d \<and> length (tail d) < length (tail f) \<and>
                        take (length (tail d)) (tail f) = tail d \<and>
                        ends_with (name f) (drop 4 pat))
              (fs_files w @ map fst (fs_links w))
          else
            filter (\<lambda>f. tail f \<noteq> [] \<and> parent f = d \<and> ends_with (name f) (drop 1 pat))
              (fs_files w @ map fst (fs_links w)))"

definition tiny_mkdir :: "tiny_fs \<Rightarrow> path \<Rightarrow> exn option \<times> tiny_fs" where
  "tiny_mkdir w d =
     (if d \<in> set (fs_files w) then (Some (''[Errno 17] File exists: '' @ path_str d), w)
      else if d \<in> set (fs_dirs w) then (None, w)
      else (None, w\<lparr>fs_dirs := d # fs_dirs w\<rparr>))"

definition tiny_log_open :: "tiny_fs \<Rightarrow> string \<Rightarrow> exn option \<times> tiny_fs" where
  "tiny_log_open w f =
     (let p = parse_path f in
      if p \<in> set (fs_dirs w) then (Some (''[Errno 21] Is a directory: '' @ f), w)
      else if tail (parent p) = [] \<or> parent p \<in> set (fs_dirs w) then
        (None, if p \<in> set (fs_files w) then w else w\<lparr>fs_files := p # fs_files w\<rparr>)
      else (Some (''[Errno 2] No such file or directory: '' @ f), w))"

definition tiny_open :: "tiny_fs \<Rightarrow> path \<Rightarrow> (exn + image) \<times> tiny_fs" where
  "tiny_open w p =
     (if p \<in> set (fs_corrupt w) then (Inl (''cannot identify image file '' @ path_str p), w)
      else (Inr \<lparr>mode = ''RGB'', icc_profile = None, transparency = False\<rparr>, w))"

definition tiny_save ::
  "tiny_fs \<Rightarrow> image \<Rightarrow> path \<Rightarrow> int \<Rightarrow> string option \<Rightarrow> exn option \<times> tiny_fs" where
  "tiny_save w img out q icc =
     (None, if out \<in> set (fs_files w) then w else w\<lparr>fs_files := out # fs_files w\<rparr>)"

definition tiny_env :: "tiny_fs env" where
  "tiny_env =
     \<lparr>fs_exists = tiny_exists,
      fs_is_file = tiny_is_file,
      fs_is_dir = tiny_is_dir,
      fs_glob = tiny_glob,
      fs_resolve = tiny_resolve,
      fs_mkdir = tiny_mkdir,
      log_open = tiny_log_open,
      img_open = tiny_open,
      img_convert = (\<lambda>img m. Inr (img\<lparr>mode := m\<rparr>)),
      img_save = tiny_save\<rparr>"

text \<open>
  An environment whose world is the list of the calls that changed it or opened an image:
  \<open>present\<close> are the paths that exist.
\<close>

datatype call = Mkdir path | OpenLog string | Open path | Save path

definition logging_env :: "path list \<Rightarrow> call list env" where
  "logging_env present =
     \<lparr>fs_exists = (\<lambda>w p. Inr (p \<in> set present)),
      fs_is_file = (\<lambda>w p. Inr (p \<in> set present)),
      fs_is_dir = (\<lambda>w p. Inr False),
      fs_glob = (\<lambda>w d pat. Inr []),
      fs_resolve = (\<lambda>w p. Inr p),
      fs_mkdir = (\<lambda>w d. (None, w @ [Mkdir d])),
      log_open = (\<lambda>w f. (None, w @ [OpenLog f])),
      img_open = (\<lambda>w p. (Inr \<lparr>mode = ''RGB'', icc_profile = None, transparency = False\<rparr>,
                          w @ [Open p])),
      img_convert = (\<lambda>img m. Inr (img\<lparr>mode := m\<rparr>)),
      img_save = (\<lambda>w img out q icc. (None, w @ [Save out]))\<rparr>"

text \<open>
  A directory \<^verbatim>\<open>pics\<close> with two images, an output that is already there, a file that
  the codec rejects, a link to the first image and a file without extension; a
  directory \<^verbatim>\<open>loops\<close> that holds a link to itself; and a text file.
\<close>

definition tiny_world :: tiny_fs where
  "tiny_world =
     \<lparr>fs_files =
        [\<lparr>root = [], tail = [''pics'', ''a.png'']\<rparr>,
         \<lparr>root = [], tail = [''pics'', ''b.JPG'']\<rparr>,
         \<lparr>root = [], tail = [''pics'', ''b.avif'']\<rparr>,
         \<lparr>root = [], tail = [''pics'', ''bad.jpeg'']\<rparr>,
         \<lparr>root = [], tail = [''pics'', ''README'']\<rparr>,
         \<lparr>root = [], tail = [''notes.txt'']\<rparr>],
      fs_dirs = [\<lparr>root = [], tail = [''pics'']\<rparr>, \<lparr>root = [], tail = [''loops'']\<rparr>],
      fs_links =
        [(\<lparr>root = [], tail = [''pics'', ''link.png'']\<rparr>,
          \<lparr>root = [], tail = [''pics'', ''a.png'']\<rparr>),
         (\<lparr>root = [], tail = [''loops'', ''self.png'']\<rparr>,
          \<lparr>root = [], tail = [''loops'', ''self.png'']\<rparr>)],
      fs_corrupt = [\<lparr>root = [], tail = [''pics'', ''bad.jpeg'']\<rparr>]\<rparr>"

text \<open>A path whose name has 256 bytes: no file of that name can exist.\<close>

definition long_name :: path where
  "long_name = \<lparr>root = [], tail = [replicate 252 CHR ''x'' @ ''.png'']\<rparr>"

definition tiny_args :: "path list \<Rightarrow> args" where
  "tiny_args inputs =
     \<lparr>arg_input = inputs, arg_output = None, arg_overwrite = False, arg_quality = 80,
      arg_parallel = 4, arg_no_recursive = False, arg_verbose = False, arg_log_file = None,
      arg_quiet = False\<rparr>"

text \<open>The counters of a batch result agree with its list of results.\<close>

definition counted :: "batch_result \<Rightarrow> bool" where
  "counted r =
     (successful r = int (length (filter success (results r))) \<and>
      failed r = int (length (filter (\<lambda>c. \<not> success c) (results r))))"

section \<open>Properties of strings and paths\<close>

lemma rfind_absent: "c \<notin> set ys \<Longrightarrow> rfind c ys = -1"
  by (induction ys) (auto simp: Let_def)

lemma rfind_append_sep: "c \<notin> set ys \<Longrightarrow> rfind c (xs @ c # ys) = int (length xs)"
  by (induction xs) (auto simp: Let_def rfind_absent)

lemma split_on_absent: "c \<notin> set s \<Longrightarrow> split_on c s = [s]"
  by (induction s) auto

lemma split_on_fields: "f \<in> set (split_on c s) \<Longrightarrow> c \<notin> set f"
  by (induction s arbitrary: f) (auto split: if_splits list.splits)

text \<open>Parsing a string always gives a well-formed path.\<close>

lemma wf_parse_path: "wf_path (parse_path s)"
  by (auto simp: wf_path_def parse_path_def Let_def list_all_iff dest: split_on_fields)

lemma parse_path_component:
  assumes "CHR ''/'' \<notin> set n" and "n \<noteq> []" and "n \<noteq> ''.''"
  shows "parse_path n = \<lparr>root = [], tail = [n]\<rparr>"
proof -
  from assms(1,2) have "take 1 n \<noteq> ''/''"
    by (cases n) auto
  with assms show ?thesis
    by (simp add: parse_path_def split_on_absent)
qed

lemma joinpath_component:
  assumes "CHR ''/'' \<notin> set n" and "n \<noteq> []" and "n \<noteq> ''.''"
  shows "joinpath d n = \<lparr>root = root d, tail = tail d @ [n]\<rparr>"
  by (simp add: joinpath_def parse_path_component [OF assms])

lemma wf_tail_no_sep: "wf_path x \<Longrightarrow> s \<in> set (tail x) \<Longrightarrow> CHR ''/'' \<notin> set s"
  by (simp add: wf_path_def list_all_iff)

lemma wf_root_sep: "wf_path x \<Longrightarrow> root x \<noteq> [] \<Longrightarrow> CHR ''/'' \<in> set (root x)"
  by (auto simp: wf_path_def)

lemma wf_path_name: "wf_path p \<Longrightarrow> CHR ''/'' \<notin> set (name p)"
  by (auto simp: wf_path_def name_def list_all_iff)

lemma stem_subset: "set (stem p) \<subseteq> set (name p)"
  by (auto simp: stem_def Let_def dest: in_set_takeD)

lemma stem_suffix: "stem p @ suffix p = name p"
  by (simp add: stem_def suffix_def Let_def)

lemma stem_nonempty: "name p \<noteq> [] \<Longrightarrow> stem p \<noteq> []"
  by (auto simp: stem_def Let_def)

text \<open>Two well-formed paths with the same comparison key are the same path.\<close>

lemma cparts_inj:
  assumes p: "wf_path p" and q: "wf_path q" and eq: "cparts p = cparts q"
  shows "p = q"
proof -
  have mixed: False if "wf_path x" and "wf_path y" and "root x = []" and "root y \<noteq> []"
    and "tail x = root y # tail y" for x y :: path
  proof -
    from that(5) have "root y \<in> set (tail x)"
      by simp
    with that(1) have "CHR ''/'' \<notin> set (root y)"
      by (rule wf_tail_no_sep)
    with wf_root_sep [OF that(2) that(4)] show False
      by simp
  qed
  consider "root p = []" "root q = []" | "root p = []" "root q \<noteq> []"
    | "root p \<noteq> []" "root q = []" | "root p \<noteq> []" "root q \<noteq> []"
    by blast
  then show ?thesis
  proof cases
    case 1
    with eq show ?thesis by (simp add: cparts_def)
  next
    case 2
    with eq have "tail p = root q # tail q" by (simp add: cparts_def)
    with mixed [OF p q] 2 show ?thesis by simp
  next
    case 3
    with eq have "tail q = root p # tail p" by (simp add: cparts_def)
    with mixed [OF q p] 3 show ?thesis by simp
  next
    case 4
    with eq show ?thesis by (simp add: cparts_def)
  qed
qed

text \<open>Splitting and joining are inverse to each other.\<close>

lemma split_on_nonempty: "split_on c s \<noteq> []"
  by (induction s) (auto split: list.splits)

lemma split_on_append: "c \<notin> set f \<Longrightarrow> split_on c (f @ c # r) = f # split_on c r"
  by (induction f) auto

lemma join_with_Cons: "join_with sep ((x # f) # fs) = x # join_with sep (f # fs)"
  by (cases fs) auto

lemma join_split: "join_with [c] (split_on c s) = s"
proof (induction s)
  case Nil
  show ?case by simp
next
  case (Cons x xs)
  show ?case
  proof (cases "x = c")
    case True
    obtain g gs where g: "split_on c xs = g # gs"
      using split_on_nonempty [of c xs] by (cases "split_on c xs") auto
    with Cons True show ?thesis
      by simp
  next
    case False
    obtain g gs where g: "split_on c xs = g # gs"
      using split_on_nonempty [of c xs] by (cases "split_on c xs") auto
    with Cons False show ?thesis
      by (simp add: join_with_Cons)
  qed
qed

lemma split_on_inj: "split_on c s = split_on c t \<Longrightarrow> s = t"
  by (metis join_split)

lemma split_join:
  assumes "fs \<noteq> []" and "\<And>f. f \<in> set fs \<Longrightarrow> c \<notin> set f"
  shows "split_on c (join_with [c] fs) = fs"
  using assms
proof (induction "[c]" fs rule: join_with.induct)
  case 1
  then show ?case by simp
next
  case (2 f)
  then show ?case by (simp add: split_on_absent)
next
  case (3 f g fs)
  then show ?case by (simp add: split_on_append)
qed

lemma join_with_head:
  assumes "fs \<noteq> []" and "\<And>f. f \<in> set fs \<Longrightarrow> f \<noteq> [] \<and> c \<notin> set f"
  shows "take 1 (join_with [c] fs) \<noteq> [c]"
proof -
  from assms(1) obtain f gs where fs: "fs = f # gs"
    by (cases fs) auto
  with assms(2) have "f \<noteq> []" and "c \<notin> set f"
    by auto
  then obtain x xs where f: "f = x # xs" and "x \<noteq> c"
    by (cases f) auto
  then show ?thesis
    unfolding fs by (cases gs) auto
qed

lemma wf_tail_fields:
  assumes "wf_path p" and "f \<in> set (tail p)"
  shows "f \<noteq> []" and "f \<noteq> ''.''" and "CHR ''/'' \<notin> set f"
  using assms by (simp_all add: wf_path_def list_all_iff)

lemma keep_tail:
  assumes "wf_path p"
  shows "filter (\<lambda>x. x \<noteq> [] \<and> x \<noteq> ''.'') (tail p) = tail p"
  using wf_tail_fields [OF assms] by (simp add: filter_id_conv)

lemma parse_joined:
  assumes wf: "wf_path p" and ne: "tail p \<noteq> []"
  shows "parse_path (root p @ join_with ''/'' (tail p)) = p"
proof -
  define s where "s = join_with ''/'' (tail p)"
  have split: "split_on CHR ''/'' s = tail p"
    unfolding s_def using ne wf_tail_fields(3) [OF wf] by (rule split_join)
  have head: "take 1 s \<noteq> ''/''"
    unfolding s_def using ne wf_tail_fields(1,3) [OF wf] by (intro join_with_head) auto
  from wf consider "root p = []" | "root p = ''/''" | "root p = ''//''"
    by (auto simp: wf_path_def)
  then show ?thesis
  proof cases
    case 1
    with head split keep_tail [OF wf] show ?thesis
      by (simp add: parse_path_def s_def [symmetric])
  next
    case 2
    with head split keep_tail [OF wf] show ?thesis
      by (simp add: parse_path_def s_def [symmetric])
  next
    case 3
    with head split keep_tail [OF wf] show ?thesis
      by (simp add: parse_path_def s_def [symmetric])
  qed
qed

lemma join_with_empty:
  assumes "fs \<noteq> []" and "\<And>f. f \<in> set fs \<Longrightarrow> f \<noteq> []"
  shows "join_with sep fs \<noteq> []"
proof -
  from assms(1) obtain f gs where fs: "fs = f # gs"
    by (cases fs) auto
  with assms(2) have "f \<noteq> []"
    by auto
  then show ?thesis
    unfolding fs by (cases gs) auto
qed

text \<open>Parsing the text of a well-formed path gives the path back.\<close>

lemma parse_path_str:
  assumes wf: "wf_path p"
  shows "parse_path (path_str p) = p"
proof (cases "tail p = []")
  case True
  from wf consider "root p = []" | "root p = ''/''" | "root p = ''//''"
    by (auto simp: wf_path_def)
  then show ?thesis
    using True by cases (simp_all add: path_str_def parse_path_def)
next
  case False
  have "join_with ''/'' (tail p) \<noteq> []"
    using False wf_tail_fields(1) [OF wf] by (rule join_with_empty)
  then have "path_str p = root p @ join_with ''/'' (tail p)"
    by (simp add: path_str_def Let_def)
  with parse_joined [OF wf False] show ?thesis
    by simp
qed

lemma parts_normcase_inj:
  assumes "wf_path p" and "wf_path q" and "parts_normcase p = parts_normcase q"
  shows "p = q"
proof -
  from assms(3) have "path_str p = path_str q"
    unfolding parts_normcase_def by (rule split_on_inj)
  then have "parse_path (path_str p) = parse_path (path_str q)"
    by simp
  with assms(1,2) show ?thesis
    by (simp add: parse_path_str)
qed

text \<open>On every interpreter, two well-formed paths that compare equal are the same path.\<close>

lemma sort_parts_inj:
  assumes "wf_path p" and "wf_path q" and "sort_parts v p = sort_parts v q"
  shows "p = q"
  using assms by (cases v) (auto simp: sort_parts_def intro: cparts_inj parts_normcase_inj)

text \<open>The definitions that the evaluation of a call of \<open>convert\<close> on the small world unfolds.\<close>

lemmas eval_defs =
  convert_def convert_image_def output_img_def save_icc_def tiny_env_def tiny_world_def
  tiny_exists_def tiny_is_file_def tiny_is_dir_def tiny_resolve_def tiny_target_def too_long_def
  tiny_mkdir_def tiny_log_open_def tiny_open_def tiny_save_def is_supported_format_def
  suffix_def name_def stem_def parent_def lower_def lower_char_def SUPPORTED_INPUT_FORMATS_def
  get_output_path_def OUTPUT_FORMAT_def joinpath_def parse_path_def path_str_def Let_def
  ImageConverter_def validate_quality_def MIN_QUALITY_def MAX_QUALITY_def

lemmas log_defs =
  convert_def convert_image_def output_img_def save_icc_def logging_env_def
  is_supported_format_def suffix_def name_def stem_def parent_def lower_def lower_char_def
  SUPPORTED_INPUT_FORMATS_def get_output_path_def OUTPUT_FORMAT_def joinpath_def
  parse_path_def path_str_def Let_def ImageConverter_def validate_quality_def
  MIN_QUALITY_def MAX_QUALITY_def

section \<open>Format registry: the output path\<close>

lemma output_name_component:
  assumes "wf_path p"
  shows "CHR ''/'' \<notin> set (stem p @ OUTPUT_FORMAT)"
    and "stem p @ OUTPUT_FORMAT \<noteq> []" and "stem p @ OUTPUT_FORMAT \<noteq> ''.''"
  using wf_path_name [OF assms] stem_subset [of p]
  by (auto simp: OUTPUT_FORMAT_def)

lemma get_output_path_eq:
  assumes "wf_path p"
  shows "get_output_path p od =
    \<lparr>root = root (case od of Some d \<Rightarrow> d | None \<Rightarrow> parent p),
     tail = tail (case od of Some d \<Rightarrow> d | None \<Rightarrow> parent p) @ [stem p @ OUTPUT_FORMAT]\<rparr>"
  by (simp add: get_output_path_def Let_def
      joinpath_component [OF output_name_component [OF assms]] split: option.split)

lemma suffix_of_output:
  assumes "s \<noteq> []"
  shows "suffix \<lparr>root = r, tail = t @ [s @ ''.avif'']\<rparr> = ''.avif''"
    and "stem \<lparr>root = r, tail = t @ [s @ ''.avif'']\<rparr> = s"
proof -
  have "rfind CHR ''.'' (s @ CHR ''.'' # ''avif'') = int (length s)"
    by (rule rfind_append_sep) simp
  with assms show "suffix \<lparr>root = r, tail = t @ [s @ ''.avif'']\<rparr> = ''.avif''"
    and "stem \<lparr>root = r, tail = t @ [s @ ''.avif'']\<rparr> = s"
    by (simp_all add: suffix_def stem_def name_def Let_def)
qed

text \<open>
  Claim C7. \<open>get_output_path\<close> is a function of its two arguments alone (it takes no
  world). For every path \<open>p\<close> that \<^verbatim>\<open>Path\<close> can build, the name of the result is the
  stem of \<open>p\<close> followed by \<open>.avif\<close>, where the stem is the name of \<open>p\<close> without its
  suffix; when \<open>p\<close> has a name, the suffix of the result is \<open>.avif\<close> and its stem is that
  of \<open>p\<close>. The parent of the result is the parent of \<open>p\<close> when no output directory is
  given, and is \<open>d\<close> when the directory \<open>d\<close> is given, whatever the directory of \<open>p\<close>.
\<close>

theorem get_output_path_spec:
  assumes "wf_path p"
  shows "name (get_output_path p od) = stem p @ ''.avif'' \<and>
         stem p @ suffix p = name p \<and>
         (name p \<noteq> [] \<longrightarrow>
            suffix (get_output_path p od) = ''.avif'' \<and> stem (get_output_path p od) = stem p) \<and>
         parent (get_output_path p None) = parent p \<and>
         parent (get_output_path p (Some d)) = d"
proof -
  have n: "name (get_output_path p od) = stem p @ ''.avif''"
    by (simp add: get_output_path_eq [OF assms] name_def OUTPUT_FORMAT_def)
  have s: "name p \<noteq> [] \<longrightarrow>
      suffix (get_output_path p od) = ''.avif'' \<and> stem (get_output_path p od) = stem p"
    by (simp add: get_output_path_eq [OF assms] OUTPUT_FORMAT_def suffix_of_output stem_nonempty)
  have p1: "parent (get_output_path p None) = parent p"
    by (simp add: get_output_path_eq [OF assms] parent_def)
  have p2: "parent (get_output_path p (Some d)) = d"
    by (simp add: get_output_path_eq [OF assms] parent_def)
  from n s p1 p2 show ?thesis
    by (simp add: stem_suffix)
qed

theorem get_output_path_spec_witness:
  "wf_path (parse_path ''photos/cat.JPG'') \<and>
   name (parse_path ''photos/cat.JPG'') \<noteq> [] \<and>
   name (get_output_path (parse_path ''photos/cat.JPG'') None) = ''cat.avif'' \<and>
   suffix (get_output_path (parse_path ''photos/cat.JPG'') None) = ''.avif'' \<and>
   parent (get_output_path (parse_path ''photos/cat.JPG'') None) = parse_path ''photos'' \<and>
   parent (get_output_path (parse_path ''photos/cat.JPG'') (Some (parse_path ''/out/dir''))) =
     parse_path ''/out/dir''"
proof -
  have h: "wf_path (parse_path ''photos/cat.JPG'')"
    by (rule wf_parse_path)
  have e: "name (parse_path ''photos/cat.JPG'') \<noteq> []"
    "stem (parse_path ''photos/cat.JPG'') = ''cat''"
    "parent (parse_path ''photos/cat.JPG'') = parse_path ''photos''"
    by (simp_all add: parse_path_def name_def stem_def parent_def Let_def)
  from get_output_path_spec [OF h, of None "parse_path ''/out/dir''"] h e show ?thesis
    by simp
qed

section \<open>Single-unit converter\<close>

text \<open>
  Claim C3, as amended. The decision sequence of \<open>convert\<close>, in order: when
  \<^verbatim>\<open>input_path.exists()\<close> returns false, the result is the failure
  \<open>File not found: <path>\<close> with no output path, and the world is untouched; when it
  returns true and the extension is not supported, the result is the failure
  \<open>Unsupported format: <suffix>\<close> with no output path, and the world is untouched; when it
  returns true and the extension is supported, every result that is returned carries the
  output path computed by \<open>get_output_path\<close>.
\<close>

theorem convert_decision_sequence:
  "(fs_exists env w inp = Inr False \<longrightarrow>
      convert env self w inp output_dir overwrite =
        (Inr \<lparr>input_path = inp, output_path = None, success = False,
              error_message = Some (''File not found: '' @ path_str inp)\<rparr>, w)) \<and>
   (fs_exists env w inp = Inr True \<and> \<not> is_supported_format inp \<longrightarrow>
      convert env self w inp output_dir overwrite =
        (Inr \<lparr>input_path = inp, output_path = None, success = False,
              error_message = Some (''Unsupported format: '' @ suffix inp)\<rparr>, w)) \<and>
   (fs_exists env w inp = Inr True \<and> is_supported_format inp \<longrightarrow>
      (\<forall>r. fst (convert env self w inp output_dir overwrite) = Inr r \<longrightarrow>
         output_path r = Some (get_output_path inp output_dir)))"
  by (auto simp: convert_def Let_def split: option.splits prod.splits sum.splits bool.splits)

theorem convert_decision_sequence_witness:
  "fs_exists tiny_env tiny_world (parse_path ''pics/none.png'') = Inr False \<and>
   convert tiny_env (ImageConverter 80) tiny_world (parse_path ''pics/none.png'') None False =
     (Inr \<lparr>input_path = parse_path ''pics/none.png'', output_path = None, success = False,
           error_message = Some ''File not found: pics/none.png''\<rparr>, tiny_world) \<and>
   fs_exists tiny_env tiny_world (parse_path ''notes.txt'') = Inr True \<and>
   \<not> is_supported_format (parse_path ''notes.txt'') \<and>
   convert tiny_env (ImageConverter 80) tiny_world (parse_path ''notes.txt'') None False =
     (Inr \<lparr>input_path = parse_path ''notes.txt'', output_path = None, success = False,
           error_message = Some ''Unsupported format: .txt''\<rparr>, tiny_world) \<and>
   fs_exists tiny_env tiny_world (parse_path ''pics/a.png'') = Inr True \<and>
   is_supported_format (parse_path ''pics/a.png'') \<and>
   fst (convert tiny_env (ImageConverter 80) tiny_world (parse_path ''pics/a.png'') None False) =
     Inr \<lparr>input_path = parse_path ''pics/a.png'', output_path = Some (parse_path ''pics/a.avif''),
          success = True, error_message = None\<rparr>"
proof -
  have h1: "fs_exists tiny_env tiny_world (parse_path ''pics/none.png'') = Inr False"
    and h2: "fs_exists tiny_env tiny_world (parse_path ''notes.txt'') = Inr True"
      "\<not> is_supported_format (parse_path ''notes.txt'')"
    and h3: "fs_exists tiny_env tiny_world (parse_path ''pics/a.png'') = Inr True"
      "is_supported_format (parse_path ''pics/a.png'')"
    by (simp_all add: eval_defs)
  have e: "path_str (parse_path ''pics/none.png'') = ''pics/none.png''"
    "suffix (parse_path ''notes.txt'') = ''.txt''"
    "fst (convert tiny_env (ImageConverter 80) tiny_world (parse_path ''pics/a.png'') None False) =
       Inr \<lparr>input_path = parse_path ''pics/a.png'', output_path = Some (parse_path ''pics/a.avif''),
          success = True, error_message = None\<rparr>"
    by (simp_all add: eval_defs)
  from convert_decision_sequence [of tiny_env tiny_world "parse_path ''pics/none.png''"
      "ImageConverter 80" None False]
    convert_decision_sequence [of tiny_env tiny_world "parse_path ''notes.txt''"
      "ImageConverter 80" None False]
    convert_decision_sequence [of tiny_env tiny_world "parse_path ''pics/a.png''"
      "ImageConverter 80" None False]
    h1 h2 h3 e
  show ?thesis
    by simp
qed

text \<open>
  The claim as stated fails for a path that does not exist and on which \<^verbatim>\<open>exists\<close>
  raises: \<open>convert\<close> raises and returns no result. Here the name has 256 bytes.
\<close>

theorem convert_missing_input_raises:
  "long_name \<notin> set (fs_files tiny_world @ fs_dirs tiny_world @ map fst (fs_links tiny_world)) \<and>
   convert tiny_env (ImageConverter 80) tiny_world long_name None False =
     (Inl ''[Errno 36] File name too long'', tiny_world)"
proof -
  have "long_name \<notin> set (fs_files tiny_world @ fs_dirs tiny_world @ map fst (fs_links tiny_world))"
    by code_simp
  moreover have "fs_exists tiny_env tiny_world long_name = Inl ''[Errno 36] File name too long''"
    by (simp add: tiny_env_def tiny_exists_def too_long_def long_name_def)
  then have "convert tiny_env (ImageConverter 80) tiny_world long_name None False =
     (Inl ''[Errno 36] File name too long'', tiny_world)"
    by (simp add: convert_def)
  ultimately show ?thesis
    by simp
qed

text \<open>The logging environment records the calls of a conversion that runs.\<close>

lemma logging_env_records:
  "snd (convert (logging_env [parse_path ''pics/b.JPG'', parse_path ''pics/b.avif''])
          (ImageConverter 80) [] (parse_path ''pics/b.JPG'') (Some (parse_path ''pics'')) True) =
     [Mkdir (parse_path ''pics''), Open (parse_path ''pics/b.JPG''), Save (parse_path ''pics/b.avif'')]"
  by (simp add: log_defs)





text \<open>
  Claim C8. The constructor clamps the quality into the range from \<open>MIN_QUALITY\<close> to
  \<open>MAX_QUALITY\<close> and keeps a value that is in range. A converter built with 150 is the
  converter built with 100, and one built with -5 is the one built with 0, so every call
  of \<open>convert\<close> behaves the same on both. The converter is an argument of \<open>convert\<close> and
  not among its results: no method assigns the quality after the constructor.
\<close>

theorem quality_clamped:
  "MIN_QUALITY \<le> quality (ImageConverter q) \<and> quality (ImageConverter q) \<le> MAX_QUALITY \<and>
   (MIN_QUALITY \<le> q \<and> q \<le> MAX_QUALITY \<longrightarrow> quality (ImageConverter q) = q) \<and>
   ImageConverter 150 = ImageConverter 100 \<and>
   ImageConverter (- 5) = ImageConverter 0 \<and>
   convert env (ImageConverter 150) w inp output_dir overwrite =
     convert env (ImageConverter 100) w inp output_dir overwrite \<and>
   convert env (ImageConverter (- 5)) w inp output_dir overwrite =
     convert env (ImageConverter 0) w inp output_dir overwrite"
  by (simp add: ImageConverter_def validate_quality_def MIN_QUALITY_def MAX_QUALITY_def)

theorem quality_clamped_witness:
  "MIN_QUALITY \<le> 80 \<and> 80 \<le> MAX_QUALITY \<and> quality (ImageConverter 80) = 80 \<and>
   quality (ImageConverter 150) = 100 \<and> quality (ImageConverter (- 5)) = 0 \<and>
   convert tiny_env (ImageConverter 150) tiny_world (parse_path ''pics/a.png'') None False =
     convert tiny_env (ImageConverter 100) tiny_world (parse_path ''pics/a.png'') None False"
proof -
  have h: "MIN_QUALITY \<le> 80 \<and> 80 \<le> MAX_QUALITY"
    by (simp add: MIN_QUALITY_def MAX_QUALITY_def)
  have e: "quality (ImageConverter 100) = 100" "quality (ImageConverter 0) = 0"
    by (simp_all add: ImageConverter_def validate_quality_def MIN_QUALITY_def MAX_QUALITY_def)
  from quality_clamped [of 80 tiny_env tiny_world "parse_path ''pics/a.png''" None False] h e
  show ?thesis
    by simp
qed

text \<open>
  When \<open>convert\<close> raises: exactly when one of its two calls of \<^verbatim>\<open>exists\<close> raises, or the
  step that creates the output directory is reached and raises. All three stand before
  the \<^verbatim>\<open>try\<close> block.
\<close>

lemma convert_raises_iff:
  "fst (convert env self w inp output_dir overwrite) = Inl e \<longleftrightarrow>
     fs_exists env w inp = Inl e \<or>
     fs_exists env w inp = Inr True \<and> is_supported_format inp \<and>
       (fs_exists env w (get_output_path inp output_dir) = Inl e \<or>
        (fs_exists env w (get_output_path inp output_dir) = Inr False \<or>
         fs_exists env w (get_output_path inp output_dir) = Inr True \<and> overwrite) \<and>
        (\<exists>d. output_dir = Some d \<and> fst (fs_mkdir env w d) = Some e))"
  by (auto simp: convert_def Let_def split: option.splits prod.splits sum.splits bool.splits)

text \<open>
  A result that \<open>convert\<close> returns is for its input, and its error message is absent
  exactly on success; an exception of the conversion step becomes the error message.
\<close>

lemma convert_result_flags:
  assumes "fst (convert env self w inp output_dir overwrite) = Inr r"
  shows "input_path r = inp \<and> (success r \<longleftrightarrow> error_message r = None)"
  using assms
  by (auto simp: convert_def Let_def split: option.splits prod.splits sum.splits bool.splits
      if_splits)

lemma convert_codec_error_captured:
  assumes "fs_exists env w inp = Inr True" and "is_supported_format inp"
    and "fs_exists env w (get_output_path inp None) = Inr False"
    and "convert_image env self w inp (get_output_path inp None) = (Some e, w')"
  shows "convert env self w inp None overwrite =
           (Inr \<lparr>input_path = inp, output_path = Some (get_output_path inp None),
                 success = False, error_message = Some e\<rparr>, w')"
  using assms by (simp add: convert_def Let_def)

text \<open>
  Claim C1. The claim does not hold of the code: with an input that exists and is
  supported and an output directory that is an existing regular file, the call of
  \<^verbatim>\<open>mkdir\<close> raises before the \<^verbatim>\<open>try\<close> block is entered, and the exception leaves
  \<open>convert\<close> instead of being captured in a result.
\<close>

theorem convert_mkdir_raises:
  "fs_exists tiny_env tiny_world \<lparr>root = [], tail = [''pics'', ''a.png'']\<rparr> = Inr True \<and>
   is_supported_format \<lparr>root = [], tail = [''pics'', ''a.png'']\<rparr> \<and>
   fs_is_file tiny_env tiny_world \<lparr>root = [], tail = [''notes.txt'']\<rparr> = Inr True \<and>
   convert tiny_env (ImageConverter 80) tiny_world \<lparr>root = [], tail = [''pics'', ''a.png'']\<rparr>
     (Some \<lparr>root = [], tail = [''notes.txt'']\<rparr>) False =
     (Inl ''[Errno 17] File exists: notes.txt'', tiny_world)"
  by (simp add: eval_defs)

section \<open>Batch orchestrator\<close>

text \<open>The scheduler hands over every task once: the completion order is a permutation.\<close>

lemma length_schedule: "length (schedule picks xs) = length xs"
  by (induction picks xs rule: schedule.induct) (auto simp: Let_def)

lemma mset_schedule: "mset (schedule picks xs) = mset xs"
proof (induction picks xs rule: schedule.induct)
  case (3 k ks x xs)
  define ys where "ys = x # xs"
  define i where "i = k mod length ys"
  define rest where "rest = take i ys @ drop (Suc i) ys"
  have i: "i < length ys"
    by (simp add: i_def ys_def)
  have step: "schedule (k # ks) (x # xs) = ys ! i # schedule ks rest"
    by (simp add: Let_def ys_def i_def rest_def)
  have ih: "mset (schedule ks rest) = mset rest"
    using 3 by (simp add: Let_def ys_def i_def rest_def)
  have "ys = take i ys @ ys ! i # drop (Suc i) ys"
    using i by (rule id_take_nth_drop)
  then have "mset ys = mset (take i ys @ ys ! i # drop (Suc i) ys)"
    by (rule arg_cong)
  also have "\<dots> = add_mset (ys ! i) (mset rest)"
    by (simp add: rest_def)
  finally have split: "mset ys = add_mset (ys ! i) (mset rest)" .
  have "mset (schedule (k # ks) (x # xs)) = add_mset (ys ! i) (mset rest)"
    by (simp only: step mset.simps ih)
  also have "\<dots> = mset ys"
    by (simp only: split)
  finally show ?case
    by (simp only: ys_def)
qed simp_all

lemma schedule_pick:
  assumes "i < length xs"
  shows "schedule (i # ks) xs = xs ! i # schedule ks (take i xs @ drop (Suc i) xs)"
proof (cases xs)
  case Nil
  with assms show ?thesis by simp
next
  case (Cons x xs')
  with assms show ?thesis
    by (simp add: Let_def)
qed

text \<open>Every order of completion is the choice of some scheduler.\<close>

lemma schedule_complete: "mset ys = mset xs \<Longrightarrow> \<exists>picks. schedule picks xs = ys"
proof (induction ys arbitrary: xs)
  case Nil
  then have "schedule [] xs = []"
    by simp
  then show ?case ..
next
  case (Cons y ys)
  from Cons.prems have "y \<in> set xs"
    by (metis list.set_intros(1) set_mset_mset)
  then obtain i where i: "i < length xs" and y: "xs ! i = y"
    by (auto simp: in_set_conv_nth)
  define rest where "rest = take i xs @ drop (Suc i) xs"
  have "xs = take i xs @ xs ! i # drop (Suc i) xs"
    using i by (rule id_take_nth_drop)
  then have "mset xs = mset (take i xs @ xs ! i # drop (Suc i) xs)"
    by (rule arg_cong)
  also have "\<dots> = add_mset y (mset rest)"
    by (simp add: rest_def y)
  finally have "mset ys = mset rest"
    using Cons.prems by simp
  then obtain ks where "schedule ks rest = ys"
    using Cons.IH by blast
  with schedule_pick [OF i, of ks] y have "schedule (i # ks) xs = y # ys"
    by (simp add: rest_def)
  then show ?case ..
qed

lemma run_tasks_files: "map fst (fst (run_tasks env conv od ow w fs)) = fs"
  by (induction fs arbitrary: w) (simp_all add: case_prod_unfold)

lemma length_run_tasks: "length (fst (run_tasks env conv od ow w fs)) = length fs"
  using run_tasks_files [of env conv od ow w fs] by (metis length_map)

lemma collect_results_total: "total (collect_results r cs) = total r"
  by (induction r cs rule: collect_results.induct) auto

lemma collect_results_skipped: "skipped (collect_results r cs) = skipped r"
  by (induction r cs rule: collect_results.induct) auto

lemma collect_results_sum:
  "successful (collect_results r cs) + failed (collect_results r cs) =
     successful r + failed r + int (length cs)"
  by (induction r cs rule: collect_results.induct) auto

lemma collect_results_length:
  "length (results (collect_results r cs)) = length (results r) + length cs"
  by (induction r cs rule: collect_results.induct) auto

lemma collect_results_counted: "counted r \<Longrightarrow> counted (collect_results r cs)"
  by (induction r cs rule: collect_results.induct) (auto simp: counted_def)

lemma process_counted:
  "counted (fst (process env self picks w files output_dir overwrite show_progress))"
  by (auto simp: process_def Let_def counted_def split: prod.split
      intro!: collect_results_counted [unfolded counted_def])

lemma process_results_length:
  "length (results (fst (process env self picks w files output_dir overwrite show_progress))) =
     length files"
  by (simp add: process_def Let_def collect_results_length length_run_tasks length_schedule
      case_prod_unfold)

text \<open>
  Claim C2. For every list of files and every completion order, the result of \<open>process\<close>
  has \<open>total\<close> equal to the length of the list and equal to \<open>successful + failed\<close>. For the
  empty list the result is the batch result with all counters zero and no results, and
  the world is the one given: no task was dispatched.
\<close>

theorem process_totals:
  "total (fst (process env self picks w files output_dir overwrite show_progress)) =
     int (length files) \<and>
   total (fst (process env self picks w files output_dir overwrite show_progress)) =
     successful (fst (process env self picks w files output_dir overwrite show_progress)) +
     failed (fst (process env self picks w files output_dir overwrite show_progress)) \<and>
   process env self picks w [] output_dir overwrite show_progress =
     (\<lparr>total = 0, successful = 0, failed = 0, skipped = 0, results = []\<rparr>, w)"
  by (simp add: process_def Let_def collect_results_total collect_results_sum
      length_run_tasks length_schedule case_prod_unfold)

theorem process_totals_witness:
  "total (fst (process tiny_env (BatchProcessor (ImageConverter 80) 4) [1] tiny_world
      [parse_path ''pics/a.png'', parse_path ''pics/b.JPG'', parse_path ''pics/bad.jpeg'']
      None False True)) = 3 \<and>
   successful (fst (process tiny_env (BatchProcessor (ImageConverter 80) 4) [1] tiny_world
      [parse_path ''pics/a.png'', parse_path ''pics/b.JPG'', parse_path ''pics/bad.jpeg'']
      None False True)) = 1 \<and>
   failed (fst (process tiny_env (BatchProcessor (ImageConverter 80) 4) [1] tiny_world
      [parse_path ''pics/a.png'', parse_path ''pics/b.JPG'', parse_path ''pics/bad.jpeg'']
      None False True)) = 2"
proof -
  have e: "successful (fst (process tiny_env (BatchProcessor (ImageConverter 80) 4) [1] tiny_world
      [parse_path ''pics/a.png'', parse_path ''pics/b.JPG'', parse_path ''pics/bad.jpeg'']
      None False True)) = 1"
    by code_simp
  from process_totals [of tiny_env "BatchProcessor (ImageConverter 80) 4" "[1]" tiny_world
      "[parse_path ''pics/a.png'', parse_path ''pics/b.JPG'', parse_path ''pics/bad.jpeg'']"
      None False True] e
  show ?thesis
    by simp
qed

text \<open>
  Claim C9. Whatever the files, the options and the completion order, the \<open>skipped\<close>
  counter of the result of \<open>process\<close> is zero.
\<close>

theorem process_skipped_zero:
  "skipped (fst (process env self picks w files output_dir overwrite show_progress)) = 0"
  by (simp add: process_def Let_def collect_results_skipped split: prod.split)

theorem process_skipped_zero_witness:
  "skipped (fst (process tiny_env (BatchProcessor (ImageConverter 80) 4) [1] tiny_world
      [parse_path ''pics/a.png'', parse_path ''pics/b.JPG'', parse_path ''pics/bad.jpeg'']
      (Some (parse_path ''notes.txt'')) True False)) = 0"
  by (rule process_skipped_zero)

section \<open>File collector\<close>

lemma unique_files_returns:
  assumes "list_all (resolves env w) fs"
  shows "\<exists>u. unique_files (fs_resolve env w) seen fs = Inr u"
  using assms
proof (induction fs arbitrary: seen)
  case Nil
  show ?case by simp
next
  case (Cons f fs)
  from Cons.prems obtain c where c: "fs_resolve env w f = Inr c"
    by (auto simp: resolves_def split: sum.splits)
  from Cons.prems have rest: "list_all (resolves env w) fs"
    by simp
  from Cons.IH [OF rest, of seen] Cons.IH [OF rest, of "insert c seen"] c show ?case
    by auto
qed

lemma unique_files_set:
  assumes "unique_files (fs_resolve env w) seen fs = Inr u"
  shows "set u =
     {f. canonical env w f \<notin> seen \<and>
         find (\<lambda>g. canonical env w g = canonical env w f) fs = Some f}"
  using assms
proof (induction fs arbitrary: seen u)
  case Nil
  then show ?case by simp
next
  case (Cons f fs)
  from Cons.prems obtain c where c: "fs_resolve env w f = Inr c"
    by (auto split: sum.splits)
  then have cf: "canonical env w f = c"
    by (simp add: canonical_def)
  show ?case
  proof (cases "c \<in> seen")
    case True
    with Cons.prems c have "unique_files (fs_resolve env w) seen fs = Inr u"
      by simp
    from Cons.IH [OF this]
    have ih: "set u = {g. canonical env w g \<notin> seen \<and>
        find (\<lambda>h. canonical env w h = canonical env w g) fs = Some g}" .
    show ?thesis
    proof (rule set_eqI)
      fix g
      show "g \<in> set u \<longleftrightarrow> g \<in> {g. canonical env w g \<notin> seen \<and>
          find (\<lambda>h. canonical env w h = canonical env w g) (f # fs) = Some g}"
      proof (cases "canonical env w g = c")
        case eq: True
        with True ih show ?thesis by simp
      next
        case False
        with cf ih show ?thesis by simp
      qed
    qed
  next
    case False
    with Cons.prems c obtain k where k: "unique_files (fs_resolve env w) (insert c seen) fs = Inr k"
      and u: "u = f # k"
      by (auto split: sum.splits)
    from Cons.IH [OF k]
    have ih: "set k = {g. canonical env w g \<notin> insert c seen \<and>
        find (\<lambda>h. canonical env w h = canonical env w g) fs = Some g}" .
    show ?thesis
    proof (rule set_eqI)
      fix g
      show "g \<in> set u \<longleftrightarrow> g \<in> {g. canonical env w g \<notin> seen \<and>
          find (\<lambda>h. canonical env w h = canonical env w g) (f # fs) = Some g}"
      proof (cases "canonical env w g = c")
        case eq: True
        with False cf ih u show ?thesis by (simp add: eq_commute)
      next
        case ne: False
        then have "g \<noteq> f"
          using cf by blast
        with ne cf ih u show ?thesis by simp
      qed
    qed
  qed
qed

lemma unique_files_image:
  assumes "unique_files (fs_resolve env w) seen fs = Inr u"
  shows "canonical env w ` set u = canonical env w ` set fs - seen"
  using assms
proof (induction fs arbitrary: seen u)
  case Nil
  then show ?case by auto
next
  case (Cons f fs)
  from Cons.prems obtain c where c: "fs_resolve env w f = Inr c"
    by (auto split: sum.splits)
  then have cf: "canonical env w f = c"
    by (simp add: canonical_def)
  show ?case
  proof (cases "c \<in> seen")
    case True
    with Cons.prems c have "unique_files (fs_resolve env w) seen fs = Inr u"
      by simp
    from Cons.IH [OF this] True cf show ?thesis
      by auto
  next
    case False
    with Cons.prems c obtain k where k: "unique_files (fs_resolve env w) (insert c seen) fs = Inr k"
      and u: "u = f # k"
      by (auto split: sum.splits)
    from Cons.IH [OF k] False cf u show ?thesis
      by auto
  qed
qed

lemma unique_files_distinct:
  assumes "unique_files (fs_resolve env w) seen fs = Inr u"
  shows "distinct (map (canonical env w) u)"
  using assms
proof (induction fs arbitrary: seen u)
  case Nil
  then show ?case by auto
next
  case (Cons f fs)
  from Cons.prems obtain c where c: "fs_resolve env w f = Inr c"
    by (auto split: sum.splits)
  then have cf: "canonical env w f = c"
    by (simp add: canonical_def)
  show ?case
  proof (cases "c \<in> seen")
    case True
    with Cons.prems c have "unique_files (fs_resolve env w) seen fs = Inr u"
      by simp
    from Cons.IH [OF this] show ?thesis .
  next
    case False
    with Cons.prems c obtain k where k: "unique_files (fs_resolve env w) (insert c seen) fs = Inr k"
      and u: "u = f # k"
      by (auto split: sum.splits)
    from Cons.IH [OF k] unique_files_image [OF k] cf u show ?thesis
      by auto
  qed
qed

lemma unique_files_subset:
  assumes "unique_files (fs_resolve (env :: 'w env) w) seen fs = Inr u"
  shows "set u \<subseteq> set fs"
proof
  fix f
  assume "f \<in> set u"
  with unique_files_set [OF assms]
  have "find (\<lambda>g. canonical env w g = canonical env w f) fs = Some f"
    by simp
  then show "f \<in> set fs"
    by (auto simp: find_Some_iff)
qed

lemma distinct_map_sort_key:
  "distinct (map g (sort_key f xs)) = distinct (map g xs)"
proof -
  have "mset (map g (sort_key f xs)) = mset (map g xs)"
    by simp
  then show ?thesis
    by (rule mset_eq_imp_distinct_iff)
qed

lemma unique_files_no_alias:
  assumes u: "unique_files (fs_resolve env w) {} fs = Inr u"
    and inj: "inj_on (canonical env w) (set fs)"
  shows "set u = set fs"
proof -
  have "canonical env w ` set u = canonical env w ` set fs"
    by (simp add: unique_files_image [OF u])
  moreover have "set u \<subseteq> set fs"
    using u by (rule unique_files_subset)
  ultimately show ?thesis
    using inj by (simp add: inj_on_image_eq_iff)
qed

lemma sort_key_parts_unique:
  assumes "set xs = set ys" and "distinct xs" and "distinct ys"
    and wf: "list_all wf_path xs"
  shows "sort_key (sort_parts v) xs = sort_key (sort_parts v) ys"
proof -
  have inj: "inj_on (sort_parts v) (set xs)"
  proof (rule inj_onI)
    fix p q
    assume "p \<in> set xs" and "q \<in> set xs" and eq: "sort_parts v p = sort_parts v q"
    with wf have "wf_path p" and "wf_path q"
      by (simp_all add: list_all_iff)
    then show "p = q"
      using eq by (rule sort_parts_inj)
  qed
  have "map (sort_parts v) (sort_key (sort_parts v) xs) =
        map (sort_parts v) (sort_key (sort_parts v) ys)"
  proof (rule sorted_distinct_set_unique)
    show "sorted (map (sort_parts v) (sort_key (sort_parts v) xs))"
      and "sorted (map (sort_parts v) (sort_key (sort_parts v) ys))"
      by (rule sorted_sort_key)+
    show "distinct (map (sort_parts v) (sort_key (sort_parts v) xs))"
      using inj assms(2) by (simp add: distinct_map)
    show "distinct (map (sort_parts v) (sort_key (sort_parts v) ys))"
      using inj assms(1,3) by (simp add: distinct_map)
    show "set (map (sort_parts v) (sort_key (sort_parts v) xs)) =
          set (map (sort_parts v) (sort_key (sort_parts v) ys))"
      using assms(1) by simp
  qed
  moreover have "inj_on (sort_parts v)
      (set (sort_key (sort_parts v) xs) \<union> set (sort_key (sort_parts v) ys))"
    using inj assms(1) by simp
  ultimately show ?thesis
    by (simp add: inj_on_map_eq_map)
qed

text \<open>
  Without aliases among the scanned files, the collected list does not depend on the
  order of the scan.
\<close>

lemma collect_order_independent:
  assumes same: "set files1 = set files2" and wf: "list_all wf_path files1"
    and inj: "inj_on (canonical env w) (set files1)"
    and u1: "unique_files (fs_resolve env w) {} files1 = Inr u1"
    and u2: "unique_files (fs_resolve env w) {} files2 = Inr u2"
  shows "sort_key (sort_parts v) u1 = sort_key (sort_parts v) u2"
proof (rule sort_key_parts_unique)
  from same inj have inj2: "inj_on (canonical env w) (set files2)"
    by simp
  show "set u1 = set u2"
    using same by (simp add: unique_files_no_alias [OF u1 inj] unique_files_no_alias [OF u2 inj2])
  show "distinct u1"
    using unique_files_distinct [OF u1] by (simp add: distinct_map)
  show "distinct u2"
    using unique_files_distinct [OF u2] by (simp add: distinct_map)
  show "list_all wf_path u1"
    using wf unique_files_subset [OF u1] by (auto simp: list_all_iff)
qed

text \<open>With an alias, the entry that is kept is the one that the scan met first.\<close>

lemma unique_files_alias:
  assumes "resolve a = Inr c" and "resolve b = Inr c"
  shows "unique_files resolve {} [a, b] = Inr [a] \<and> unique_files resolve {} [b, a] = Inr [b]"
  using assms by simp

text \<open>
  Claim C5, as amended. Whenever the scan of the input paths completes (no call of
  \<^verbatim>\<open>is_file\<close>, \<^verbatim>\<open>is_dir\<close> or \<^verbatim>\<open>glob\<close> raises) and \<^verbatim>\<open>resolve\<close> returns on every scanned
  file, then for every order in which the filesystem lists directories, every order of
  iteration over the supported suffixes and every interpreter, \<open>collect_files\<close> returns
  a list such that: no two entries have the same resolved form; the entries are exactly
  the scanned files that are the first in scan order with their resolved form; the list
  is sorted by the comparison of paths of the interpreter; its length is the number of
  distinct resolved forms of the scanned files; and, the scanned paths being well
  formed, the list is strictly increasing, so its order is determined by its entries.
\<close>

theorem collect_files_unique_sorted:
  assumes sc: "scan env w exts paths recursive = Inr files"
    and rs: "list_all (resolves env w) files"
  shows "\<exists>r. collect_files v env w exts paths recursive = Inr r \<and>
     distinct (map (canonical env w) r) \<and>
     set r = {f. find (\<lambda>g. canonical env w g = canonical env w f) files = Some f} \<and>
     sorted (map (sort_parts v) r) \<and>
     length r = card (canonical env w ` set files) \<and>
     (list_all wf_path files \<longrightarrow> sorted_wrt (<) (map (sort_parts v) r))"
proof -
  from unique_files_returns [OF rs, of "{}"]
  obtain u where u: "unique_files (fs_resolve env w) {} files = Inr u"
    by blast
  define r where "r = sort_key (sort_parts v) u"
  have ret: "collect_files v env w exts paths recursive = Inr r"
    by (simp add: collect_files_def sc u r_def)
  have d: "distinct (map (canonical env w) r)"
    unfolding r_def by (simp add: distinct_map_sort_key unique_files_distinct [OF u])
  have s: "set r = {f. find (\<lambda>g. canonical env w g = canonical env w f) files = Some f}"
    unfolding r_def by (simp add: unique_files_set [OF u])
  have o: "sorted (map (sort_parts v) r)"
    unfolding r_def by (rule sorted_sort_key)
  have "length r = length (map (canonical env w) u)"
    by (simp add: r_def)
  also have "\<dots> = card (set (map (canonical env w) u))"
    using unique_files_distinct [OF u] by (simp only: distinct_card)
  also have "\<dots> = card (canonical env w ` set files)"
    by (simp add: unique_files_image [OF u])
  finally have l: "length r = card (canonical env w ` set files)" .
  have st: "sorted_wrt (<) (map (sort_parts v) r)" if wf: "list_all wf_path files"
  proof -
    have "distinct r"
      using d by (simp add: distinct_map)
    moreover have "inj_on (sort_parts v) (set r)"
    proof (rule inj_onI)
      fix p q
      assume pq: "p \<in> set r" "q \<in> set r" and eq: "sort_parts v p = sort_parts v q"
      have sub: "set u \<subseteq> set files"
        using u by (rule unique_files_subset)
      from pq sub have "p \<in> set files" and "q \<in> set files"
        by (auto simp: r_def)
      with wf have "wf_path p" and "wf_path q"
        by (simp_all add: list_all_iff)
      then show "p = q"
        using eq by (rule sort_parts_inj)
    qed
    ultimately have "distinct (map (sort_parts v) r)"
      by (simp add: distinct_map)
    with o show ?thesis
      by (simp add: strict_sorted_iff)
  qed
  from ret d s o l st show ?thesis
    by blast
qed

theorem collect_files_unique_sorted_witness:
  "scan tiny_env tiny_world [''.png'', ''.jpg'', ''.jpeg'']
     [parse_path ''pics'', parse_path ''notes.txt'', parse_path ''pics/a.png''] True =
     Inr [parse_path ''pics/a.png'', parse_path ''pics/link.png'', parse_path ''pics/b.JPG'',
          parse_path ''pics/bad.jpeg'', parse_path ''pics/a.png''] \<and>
   list_all (resolves tiny_env tiny_world)
     [parse_path ''pics/a.png'', parse_path ''pics/link.png'', parse_path ''pics/b.JPG'',
      parse_path ''pics/bad.jpeg'', parse_path ''pics/a.png''] \<and>
   list_all wf_path
     [parse_path ''pics/a.png'', parse_path ''pics/link.png'', parse_path ''pics/b.JPG'',
      parse_path ''pics/bad.jpeg'', parse_path ''pics/a.png''] \<and>
   collect_files Py312 tiny_env tiny_world [''.png'', ''.jpg'', ''.jpeg'']
     [parse_path ''pics'', parse_path ''notes.txt'', parse_path ''pics/a.png''] True =
     Inr [parse_path ''pics/a.png'', parse_path ''pics/b.JPG'', parse_path ''pics/bad.jpeg''] \<and>
   distinct (map (canonical tiny_env tiny_world)
     [parse_path ''pics/a.png'', parse_path ''pics/b.JPG'', parse_path ''pics/bad.jpeg'']) \<and>
   sorted_wrt (<) (map (sort_parts Py312)
     [parse_path ''pics/a.png'', parse_path ''pics/b.JPG'', parse_path ''pics/bad.jpeg'']) \<and>
   card (canonical tiny_env tiny_world `
     set [parse_path ''pics/a.png'', parse_path ''pics/link.png'', parse_path ''pics/b.JPG'',
          parse_path ''pics/bad.jpeg'', parse_path ''pics/a.png'']) = 3"
proof -
  define files where "files =
    [parse_path ''pics/a.png'', parse_path ''pics/link.png'', parse_path ''pics/b.JPG'',
     parse_path ''pics/bad.jpeg'', parse_path ''pics/a.png'']"
  define r where "r =
    [parse_path ''pics/a.png'', parse_path ''pics/b.JPG'', parse_path ''pics/bad.jpeg'']"
  have h1: "scan tiny_env tiny_world [''.png'', ''.jpg'', ''.jpeg'']
     [parse_path ''pics'', parse_path ''notes.txt'', parse_path ''pics/a.png''] True = Inr files"
    unfolding files_def by code_simp
  have h2: "list_all (resolves tiny_env tiny_world) files"
    unfolding files_def by code_simp
  have h3: "list_all wf_path files"
    unfolding files_def by code_simp
  have e: "collect_files Py312 tiny_env tiny_world [''.png'', ''.jpg'', ''.jpeg'']
     [parse_path ''pics'', parse_path ''notes.txt'', parse_path ''pics/a.png''] True = Inr r"
    unfolding r_def by code_simp
  have len: "length r = 3"
    by (simp add: r_def)
  from collect_files_unique_sorted [OF h1 h2, of Py312] e h3 len
  have "distinct (map (canonical tiny_env tiny_world) r) \<and>
     sorted_wrt (<) (map (sort_parts Py312) r) \<and>
     card (canonical tiny_env tiny_world ` set files) = 3"
    by auto
  with h1 h2 h3 e show ?thesis
    unfolding files_def r_def by blast
qed

text \<open>
  The claim as stated fails: when a query raises, \<open>collect_files\<close> returns no list.
  Here a scanned directory holds a link to itself, which \<^verbatim>\<open>glob\<close> lists and on which
  \<^verbatim>\<open>resolve\<close> raises.
\<close>

theorem collect_files_symlink_loop_raises:
  "fs_is_dir tiny_env tiny_world (parse_path ''loops'') = Inr True \<and>
   scan tiny_env tiny_world [''.png'', ''.jpg'', ''.jpeg''] [parse_path ''loops''] True =
     Inr [parse_path ''loops/self.png''] \<and>
   collect_files Py312 tiny_env tiny_world [''.png'', ''.jpg'', ''.jpeg'']
     [parse_path ''loops''] True = Inl ''Symlink loop from loops/self.png''"
proof -
  have "fs_is_dir tiny_env tiny_world (parse_path ''loops'') = Inr True"
    by code_simp
  moreover have "scan tiny_env tiny_world [''.png'', ''.jpg'', ''.jpeg''] [parse_path ''loops''] True =
     Inr [parse_path ''loops/self.png'']"
    by code_simp
  moreover have "collect_files Py312 tiny_env tiny_world [''.png'', ''.jpg'', ''.jpeg'']
     [parse_path ''loops''] True = Inl ''Symlink loop from loops/self.png''"
    by code_simp
  ultimately show ?thesis
    by blast
qed

section \<open>Command line\<close>

lemma exit_code_cases:
  assumes c: "counted r" and n: "results r \<noteq> []"
  shows "(if failed r > 0 \<and> successful r = 0 then 1 else if failed r > 0 then 2 else (0::int)) =
         (if list_all success (results r) then 0
          else if list_all (\<lambda>c. \<not> success c) (results r) then 1 else 2)"
proof -
  have f: "failed r > 0 \<longleftrightarrow> \<not> list_all success (results r)"
    using c by (auto simp: counted_def list_all_iff filter_empty_conv)
  have s: "successful r = 0 \<longleftrightarrow> list_all (\<lambda>c. \<not> success c) (results r)"
    using c by (auto simp: counted_def list_all_iff filter_empty_conv)
  from n have "\<not> (list_all success (results r) \<and> list_all (\<lambda>c. \<not> success c) (results r))"
    by (cases "results r") auto
  with f s show ?thesis
    by auto
qed

text \<open>
  Claim C6, as amended. From the parsed arguments on, whenever the set-up of the logger
  and the collection of the files do not raise: when no supported file is collected,
  \<open>main\<close> returns 1. Otherwise at least one conversion was dispatched, and the exit code
  is 0 when every conversion succeeded, 1 when every conversion failed, and 2 when some
  succeeded and some failed.
\<close>

theorem main_exit_code:
  assumes lg: "setup_logger env w (arg_verbose a) (arg_log_file a) = (None, w1)"
    and cf: "collect_files v env w1 exts (arg_input a) (\<not> arg_no_recursive a) = Inr files"
  shows "(files = [] \<longrightarrow> main v env exts picks w a = Inr 1) \<and>
   (files \<noteq> [] \<longrightarrow>
      results (fst (process env (BatchProcessor (ImageConverter (arg_quality a)) (arg_parallel a))
        picks w1 files (arg_output a) (arg_overwrite a) (\<not> arg_quiet a))) \<noteq> [] \<and>
      main v env exts picks w a =
        Inr (if list_all success
              (results (fst (process env
                 (BatchProcessor (ImageConverter (arg_quality a)) (arg_parallel a))
                 picks w1 files (arg_output a) (arg_overwrite a) (\<not> arg_quiet a))))
         then 0
         else if list_all (\<lambda>c. \<not> success c)
              (results (fst (process env
                 (BatchProcessor (ImageConverter (arg_quality a)) (arg_parallel a))
                 picks w1 files (arg_output a) (arg_overwrite a) (\<not> arg_quiet a))))
         then 1
         else 2))"
proof -
  define r where "r = fst (process env
    (BatchProcessor (ImageConverter (arg_quality a)) (arg_parallel a)) picks w1 files
    (arg_output a) (arg_overwrite a) (\<not> arg_quiet a))"
  have empty: "main v env exts picks w a = Inr 1" if "files = []"
    using that lg cf by (simp add: main_def Let_def)
  have code: "main v env exts picks w a =
      Inr (if failed r > 0 \<and> successful r = 0 then 1 else if failed r > 0 then 2 else 0)"
    if "files \<noteq> []"
    using that lg cf by (simp add: main_def r_def Let_def case_prod_unfold)
  have c: "counted r"
    unfolding r_def by (rule process_counted)
  have n: "results r \<noteq> []" if "files \<noteq> []"
  proof -
    have "length (results r) = length files"
      unfolding r_def by (rule process_results_length)
    with that show ?thesis
      by auto
  qed
  have "main v env exts picks w a =
      Inr (if list_all success (results r) then 0
       else if list_all (\<lambda>c. \<not> success c) (results r) then 1 else 2)"
    if "files \<noteq> []"
    using code [OF that] exit_code_cases [OF c n [OF that]] by simp
  with empty n show ?thesis
    unfolding r_def by blast
qed

theorem main_exit_code_witness:
  "setup_logger tiny_env tiny_world (arg_verbose (tiny_args [parse_path ''notes.txt'']))
     (arg_log_file (tiny_args [parse_path ''notes.txt''])) = (None, tiny_world) \<and>
   collect_files Py312 tiny_env tiny_world [''.png'', ''.jpg'', ''.jpeg'']
     (arg_input (tiny_args [parse_path ''notes.txt'']))
     (\<not> arg_no_recursive (tiny_args [parse_path ''notes.txt''])) = Inr [] \<and>
   main Py312 tiny_env [''.png'', ''.jpg'', ''.jpeg''] [1] tiny_world
     (tiny_args [parse_path ''notes.txt'']) = Inr 1 \<and>
   setup_logger tiny_env tiny_world (arg_verbose (tiny_args [parse_path ''pics'']))
     (arg_log_file (tiny_args [parse_path ''pics''])) = (None, tiny_world) \<and>
   collect_files Py312 tiny_env tiny_world [''.png'', ''.jpg'', ''.jpeg'']
     (arg_input (tiny_args [parse_path ''pics'']))
     (\<not> arg_no_recursive (tiny_args [parse_path ''pics''])) =
     Inr [parse_path ''pics/a.png'', parse_path ''pics/b.JPG'', parse_path ''pics/bad.jpeg''] \<and>
   main Py312 tiny_env [''.png'', ''.jpg'', ''.jpeg''] [1] tiny_world
     (tiny_args [parse_path ''pics'']) = Inr 2"
proof -
  define files where "files =
    [parse_path ''pics/a.png'', parse_path ''pics/b.JPG'', parse_path ''pics/bad.jpeg'']"
  have l1: "setup_logger tiny_env tiny_world (arg_verbose (tiny_args [parse_path ''notes.txt'']))
     (arg_log_file (tiny_args [parse_path ''notes.txt''])) = (None, tiny_world)"
    and l2: "setup_logger tiny_env tiny_world (arg_verbose (tiny_args [parse_path ''pics'']))
     (arg_log_file (tiny_args [parse_path ''pics''])) = (None, tiny_world)"
    by (simp_all add: setup_logger_def tiny_args_def)
  have h1: "collect_files Py312 tiny_env tiny_world [''.png'', ''.jpg'', ''.jpeg'']
     (arg_input (tiny_args [parse_path ''notes.txt'']))
     (\<not> arg_no_recursive (tiny_args [parse_path ''notes.txt''])) = Inr []"
    by code_simp
  have h2: "collect_files Py312 tiny_env tiny_world [''.png'', ''.jpg'', ''.jpeg'']
     (arg_input (tiny_args [parse_path ''pics'']))
     (\<not> arg_no_recursive (tiny_args [parse_path ''pics''])) = Inr files"
    unfolding files_def by code_simp
  have ne: "files \<noteq> []"
    by (simp add: files_def)
  have mixed: "\<not> list_all success
      (results (fst (process tiny_env
         (BatchProcessor (ImageConverter (arg_quality (tiny_args [parse_path ''pics''])))
            (arg_parallel (tiny_args [parse_path ''pics''])))
         [1] tiny_world files
         (arg_output (tiny_args [parse_path ''pics'']))
         (arg_overwrite (tiny_args [parse_path ''pics'']))
         (\<not> arg_quiet (tiny_args [parse_path ''pics''])))))"
    "\<not> list_all (\<lambda>c. \<not> success c)
      (results (fst (process tiny_env
         (BatchProcessor (ImageConverter (arg_quality (tiny_args [parse_path ''pics''])))
            (arg_parallel (tiny_args [parse_path ''pics''])))
         [1] tiny_world files
         (arg_output (tiny_args [parse_path ''pics'']))
         (arg_overwrite (tiny_args [parse_path ''pics'']))
         (\<not> arg_quiet (tiny_args [parse_path ''pics''])))))"
    unfolding files_def by code_simp+
  from main_exit_code [OF l1 h1, of "[1]"]
  have m1: "main Py312 tiny_env [''.png'', ''.jpg'', ''.jpeg''] [1] tiny_world
      (tiny_args [parse_path ''notes.txt'']) = Inr 1"
    by simp
  from main_exit_code [OF l2 h2, of "[1]"] ne mixed
  have m2: "main Py312 tiny_env [''.png'', ''.jpg'', ''.jpeg''] [1] tiny_world
      (tiny_args [parse_path ''pics'']) = Inr 2"
    by presburger
  from l1 l2 h1 h2 m1 m2 show ?thesis
    unfolding files_def by blast
qed

text \<open>
  The claim as stated fails: an invocation that passes the parsing can end in an
  exception before any conversion, so that \<open>main\<close> returns none of its exit codes. Here
  the only input converts, and the same invocation with a log file in a directory that
  does not exist raises in the set-up of the logger.
\<close>

theorem main_log_file_raises:
  "main Py312 tiny_env [''.png'', ''.jpg'', ''.jpeg''] [] tiny_world
     (tiny_args [parse_path ''pics/a.png'']) = Inr 0 \<and>
   main Py312 tiny_env [''.png'', ''.jpg'', ''.jpeg''] [] tiny_world
     ((tiny_args [parse_path ''pics/a.png''])\<lparr>arg_log_file := Some ''missing/run.log''\<rparr>) =
     Inl ''[Errno 2] No such file or directory: missing/run.log''"
proof -
  have "main Py312 tiny_env [''.png'', ''.jpg'', ''.jpeg''] [] tiny_world
     (tiny_args [parse_path ''pics/a.png'']) = Inr 0"
    by code_simp
  moreover have "main Py312 tiny_env [''.png'', ''.jpg'', ''.jpeg''] [] tiny_world
     ((tiny_args [parse_path ''pics/a.png''])\<lparr>arg_log_file := Some ''missing/run.log''\<rparr>) =
     Inl ''[Errno 2] No such file or directory: missing/run.log''"
    by code_simp
  ultimately show ?thesis
    by blast
qed

end
